theory Spec2Isabelle
  imports Main "HOL-Library.Sublist"
begin

section \<open>Strings as the git utilities use them\<close>

text \<open>
  A JavaScript string is modelled as a \<^typ>\<open>string\<close>, one \<^typ>\<open>char\<close> per code unit.
  Every string operation of the git utilities (\<open>split\<close>, \<open>startsWith\<close>, \<open>substring\<close>,
  \<open>replace\<close>, \<open>match\<close> against an ASCII pattern) works code unit by code unit, so
  the model follows it position by position.
\<close>

definition newline :: char where
  "newline = CHR 0x0A"

text \<open>\<open>output.split('\n')\<close>: the pieces between line feeds; the empty string gives one empty piece.\<close>

fun split_nl :: "string \<Rightarrow> string list" where
  "split_nl [] = [[]]"
| "split_nl (c # cs) =
     (case split_nl cs of
        [] \<Rightarrow> [[c]]
      | l # ls \<Rightarrow> if c = newline then [] # l # ls else (c # l) # ls)"

text \<open>\<open>line.startsWith(p)\<close>.\<close>

definition startsWith :: "string \<Rightarrow> string \<Rightarrow> bool" where
  "startsWith line p = prefix p line"

text \<open>\<open>line.substring(n)\<close> for \<open>n\<close> within the line or beyond it.\<close>

definition substring :: "string \<Rightarrow> nat \<Rightarrow> string" where
  "substring line n = drop n line"

text \<open>
  \<open>s.replace(pat, rep)\<close> with a string pattern: the first occurrence of \<open>pat\<close>, wherever
  it starts, is replaced; a string without an occurrence is returned as it is.
\<close>

fun replace_first :: "string \<Rightarrow> string \<Rightarrow> string \<Rightarrow> string" where
  "replace_first pat rep [] = (if pat = [] then rep else [])"
| "replace_first pat rep (c # cs) =
     (if prefix pat (c # cs) then rep @ drop (length pat) (c # cs)
      else c # replace_first pat rep cs)"

section \<open>Listing worktrees\<close>

text \<open>
  \<open>Partial<WorktreeInfo>\<close>: every field may be undefined. The entries pushed to the result
  are these partial objects, cast to \<open>WorktreeInfo\<close> without filling anything in.
\<close>

record WorktreeInfo =
  name :: "string option"
  path :: "string option"
  ref :: "string option"
  sha :: "string option"
  detached :: "bool option"

definition empty_info :: WorktreeInfo where
  "empty_info = \<lparr>name = None, path = None, ref = None, sha = None, detached = None\<rparr>"

text \<open>\<open>current.path && current.sha\<close>: both defined and both non-empty.\<close>

definition truthy :: "string option \<Rightarrow> bool" where
  "truthy v = (case v of None \<Rightarrow> False | Some s \<Rightarrow> s \<noteq> [])"

definition complete :: "WorktreeInfo \<Rightarrow> bool" where
  "complete cur = (truthy (path cur) \<and> truthy (sha cur))"

text \<open>
  One turn of the loop over the lines. The state is the entry being built and the entries
  pushed so far. \<open>bn\<close> is \<open>basename\<close> of \<open>node:path\<close>.
\<close>

definition parse_line ::
  "(string \<Rightarrow> string) \<Rightarrow> string \<Rightarrow> WorktreeInfo \<times> WorktreeInfo list \<Rightarrow> WorktreeInfo \<times> WorktreeInfo list"
where
  "parse_line bn line st =
     (case st of (cur, worktrees) \<Rightarrow>
        if startsWith line ''worktree '' then
          (cur\<lparr>path := Some (substring line 9), name := Some (bn (substring line 9))\<rparr>, worktrees)
        else if startsWith line ''HEAD '' then
          (cur\<lparr>sha := Some (substring line 5)\<rparr>, worktrees)
        else if startsWith line ''branch '' then
          (cur\<lparr>ref := Some (replace_first ''refs/heads/'' [] (substring line 7)),
               detached := Some False\<rparr>, worktrees)
        else if startsWith line ''detached'' then
          (cur\<lparr>detached := Some True\<rparr>, worktrees)
        else if line = [] then
          (empty_info, if complete cur then worktrees @ [cur] else worktrees)
        else (cur, worktrees))"

definition parse_lines ::
  "(string \<Rightarrow> string) \<Rightarrow> string list \<Rightarrow> WorktreeInfo \<times> WorktreeInfo list \<Rightarrow> WorktreeInfo \<times> WorktreeInfo list"
where
  "parse_lines bn ls st = fold (parse_line bn) ls st"

text \<open>The entry still being built when the lines end is pushed under the same test.\<close>

definition finish :: "WorktreeInfo \<times> WorktreeInfo list \<Rightarrow> WorktreeInfo list" where
  "finish st = (case st of (cur, worktrees) \<Rightarrow> if complete cur then worktrees @ [cur] else worktrees)"

text \<open>
  \<open>listWorktrees\<close> from the point where \<open>git worktree list --porcelain\<close> has answered with
  \<open>output\<close>.
\<close>

definition listWorktrees :: "(string \<Rightarrow> string) \<Rightarrow> string \<Rightarrow> WorktreeInfo list" where
  "listWorktrees bn output = finish (parse_lines bn (split_nl output) (empty_info, []))"

text \<open>\<open>path.basename\<close> on POSIX paths: the last segment, trailing slashes ignored.\<close>

definition basename :: "string \<Rightarrow> string" where
  "basename p = rev (takeWhile (\<lambda>c. c \<noteq> CHR ''/'') (dropWhile (\<lambda>c. c = CHR ''/'') (rev p)))"


section \<open>The porcelain format\<close>

text \<open>
  What \<open>git worktree list --porcelain\<close> prints, taken from git's documentation: one record
  per worktree, each line ended by a line feed and each record ended by an empty line. A
  checked-out worktree prints \<open>worktree <path>\<close>, \<open>HEAD <sha>\<close>, then
  \<open>branch refs/heads/<name>\<close> or \<open>detached\<close>, then annotations (\<open>locked\<close>,
  \<open>prunable\<close>, each with an optional reason). A bare repository prints
  \<open>worktree <path>\<close> and \<open>bare\<close>. These definitions describe the input; they are not
  part of the program.
\<close>

datatype head_line = Branch string | Detached

record porcelain_record =
  p_path :: string
  p_sha :: string
  p_head :: head_line
  p_notes :: "string list"

datatype porcelain_entry = Checkout porcelain_record | BareRepo string

definition head_text :: "head_line \<Rightarrow> string" where
  "head_text h = (case h of Branch n \<Rightarrow> ''branch refs/heads/'' @ n | Detached \<Rightarrow> ''detached'')"

definition record_lines :: "porcelain_record \<Rightarrow> string list" where
  "record_lines r = [''worktree '' @ p_path r, ''HEAD '' @ p_sha r, head_text (p_head r)] @ p_notes r"

definition entry_lines :: "porcelain_entry \<Rightarrow> string list" where
  "entry_lines e = (case e of Checkout r \<Rightarrow> record_lines r | BareRepo p \<Rightarrow> [''worktree '' @ p, ''bare''])"

definition unlines :: "string list \<Rightarrow> string" where
  "unlines ls = concat (map (\<lambda>l. l @ [newline]) ls)"

text \<open>The text of a list of records given line by line, each record closed by an empty line.\<close>

definition porcelain_text :: "string list list \<Rightarrow> string" where
  "porcelain_text bs = concat (map (\<lambda>b. unlines b @ [newline]) bs)"

definition porcelain :: "porcelain_entry list \<Rightarrow> string" where
  "porcelain es = porcelain_text (map entry_lines es)"

definition note_line :: "string \<Rightarrow> bool" where
  "note_line l = ((prefix ''locked'' l \<or> prefix ''prunable'' l) \<and> newline \<notin> set l)"

text \<open>
  A record git can print: the path and the commit of a checked-out worktree are not empty,
  and no field holds a line feed (a field with one would not stay on its line).
\<close>

definition wf_record :: "porcelain_record \<Rightarrow> bool" where
  "wf_record r =
     (p_path r \<noteq> [] \<and> p_sha r \<noteq> [] \<and> newline \<notin> set (p_path r) \<and> newline \<notin> set (p_sha r) \<and>
      (case p_head r of Branch n \<Rightarrow> newline \<notin> set n | Detached \<Rightarrow> True) \<and>
      list_all note_line (p_notes r))"

definition wf_entry :: "porcelain_entry \<Rightarrow> bool" where
  "wf_entry e = (case e of Checkout r \<Rightarrow> wf_record r | BareRepo p \<Rightarrow> newline \<notin> set p)"

text \<open>The tuple the claim expects for the record of a checked-out worktree.\<close>

definition expected :: "(string \<Rightarrow> string) \<Rightarrow> porcelain_record \<Rightarrow> WorktreeInfo" where
  "expected bn r =
     \<lparr>name = Some (bn (p_path r)), path = Some (p_path r),
      ref = (case p_head r of Branch n \<Rightarrow> Some n | Detached \<Rightarrow> None),
      sha = Some (p_sha r),
      detached = Some (case p_head r of Branch n \<Rightarrow> False | Detached \<Rightarrow> True)\<rparr>"

text \<open>The tuples expected for an output: one per checked-out worktree, in order.\<close>

definition expected_list :: "(string \<Rightarrow> string) \<Rightarrow> porcelain_entry list \<Rightarrow> WorktreeInfo list" where
  "expected_list bn es =
     concat (map (\<lambda>e. case e of Checkout r \<Rightarrow> [expected bn r] | BareRepo p \<Rightarrow> []) es)"

text \<open>Records as bare lists of lines: any lines at all, as long as each is one non-empty line.\<close>

definition block_ok :: "string list \<Rightarrow> bool" where
  "block_ok b = list_all (\<lambda>l. l \<noteq> [] \<and> newline \<notin> set l) b"

definition has_line :: "string \<Rightarrow> string list \<Rightarrow> bool" where
  "has_line kw b = list_ex (\<lambda>l. startsWith l kw) b"

definition block_lines :: "string list list \<Rightarrow> string list" where
  "block_lines bs = concat (map (\<lambda>b. b @ [[]]) bs)"

text \<open>What one record contributes to the result: the loop run on its lines alone.\<close>

definition entry :: "(string \<Rightarrow> string) \<Rightarrow> string list \<Rightarrow> WorktreeInfo list" where
  "entry bn b = finish (parse_lines bn b (empty_info, []))"

text \<open>
  An output of a bare repository with two worktrees, one on \<open>main\<close> and one detached and
  locked.
\<close>

definition demo_entries :: "porcelain_entry list" where
  "demo_entries =
     [BareRepo ''/r/repo.git'',
      Checkout \<lparr>p_path = ''/r/main'', p_sha = ''ab12'', p_head = Branch ''main'', p_notes = []\<rparr>,
      Checkout \<lparr>p_path = ''/r/wt'', p_sha = ''cd34'', p_head = Detached, p_notes = [''locked'']\<rparr>]"

definition demo_bare :: "string list" where
  "demo_bare = [''worktree /r'', ''bare'']"

definition demo_rest :: "string list list" where
  "demo_rest = [[''worktree /r/wt'', ''HEAD cd34'', ''detached'']]"

section \<open>Git commands and the file system\<close>

text \<open>
  The git utilities reach the outside through \<open>simple-git\<close> and \<open>node:fs\<close>. What the
  outside answers is a parameter of the model, the \<open>world\<close>; what a function asks of it is
  returned as the list of its effects, in the order of the calls. The lookup of the git
  binary in \<open>createGit\<close> only chooses the executable and is left out.
\<close>

datatype error =
    CouldNotExtract string
  | AlreadyExists string
  | FsError string
  | GitError string

datatype effect =
    Mkdir string
  | GitClone string string "string list"
  | GitBranch string
  | GitFetch string "string list"
  | GitRaw string "string list"
  | GitStatus string
  | GitLog string
  | Warn error

record world =
  homedir :: string
  path_join :: "string list \<Rightarrow> string"
  fs_exists :: "string \<Rightarrow> bool"
  create_git :: "string \<Rightarrow> error option"
  mkdir_recursive :: "string \<Rightarrow> error + string list"
  git_clone :: "string \<Rightarrow> string \<Rightarrow> string list \<Rightarrow> error option"
  git_branch :: "string \<Rightarrow> error + string"
  git_fetch :: "string \<Rightarrow> string list \<Rightarrow> error option"
  git_raw :: "string \<Rightarrow> string list \<Rightarrow> error + string"
  git_status :: "string \<Rightarrow> error + bool"
  git_log :: "string \<Rightarrow> error + string option"

text \<open>
  \<^item> \<open>fs_exists\<close>: what exists when the function is called;
  \<^item> \<open>create_git dir\<close>: \<open>createGit(dir)\<close>; \<open>simple-git\<close> refuses a base directory that does
    not exist when the instance is made, and this is the error it throws then. Without a
    base directory (\<open>createGit()\<close>) the instance is made in the working directory of the
    process and nothing is thrown;
  \<^item> \<open>mkdir_recursive p\<close>: \<open>mkdir(p, {recursive: true})\<close> fails, or creates the listed
    directories (none when \<open>p\<close> is there already) and removes nothing;
  \<^item> \<open>git_clone\<close>, \<open>git_fetch\<close>: the error the command is rejected with, if any;
  \<^item> \<open>git_branch dir\<close>: \<open>branches.current\<close> of \<open>git.branch()\<close> in \<open>dir\<close>;
  \<^item> \<open>git_raw dir args\<close>: the standard output of \<open>git.raw(args)\<close> in \<open>dir\<close>;
  \<^item> \<open>git_status dir\<close>: \<open>status.isClean()\<close> of \<open>git.status()\<close> in \<open>dir\<close>;
  \<^item> \<open>git_log dir\<close>: \<open>log.latest?.hash\<close> of \<open>git.log({maxCount: 1})\<close> in \<open>dir\<close>.
\<close>

text \<open>\<open>a || b\<close> for an optional string \<open>a\<close>: undefined and the empty string give \<open>b\<close>.\<close>

definition or_else :: "string option \<Rightarrow> string \<Rightarrow> string" where
  "or_else a b = (case a of None \<Rightarrow> b | Some s \<Rightarrow> if s = [] then b else s)"

text \<open>\<open>existsSync\<close> after a successful \<open>mkdir\<close> that created \<open>created\<close>.\<close>

definition existsSync :: "world \<Rightarrow> string list \<Rightarrow> string \<Rightarrow> bool" where
  "existsSync w created p = (fs_exists w p \<or> p \<in> set created)"

section \<open>Cloning a repository\<close>

text \<open>
  The options of \<open>cloneRepo\<close>. \<open>onProgress\<close> is left out: when it is given, the function
  installs an output handler whose body is empty.
\<close>

record CloneOptions =
  url :: string
  targetDir :: "string option"
  bare :: "bool option"

record CloneResult =
  clone_path :: string
  repoName :: string
  defaultBranch :: string

definition getReposDir :: "world \<Rightarrow> string" where
  "getReposDir w = path_join w [homedir w, ''.agor'', ''repos'']"

text \<open>
  \<open>url.match(/\/([^/]+?)(?:\.git)?$/)\<close>. The name may hold no slash and the match runs to
  the end of the URL, so it starts at the last slash; the name is not empty; being lazy, it
  leaves a final \<open>.git\<close> to the optional group whenever something is left before it.
\<close>

definition extractRepoName :: "string \<Rightarrow> string option" where
  "extractRepoName u =
     (if CHR ''/'' \<notin> set u then None
      else let r = rev (takeWhile (\<lambda>c. c \<noteq> CHR ''/'') (rev u)) in
        if r = [] then None
        else if suffix ''.git'' r \<and> 4 < length r then Some (take (length r - 4) r)
        else Some r)"

text \<open>\<open>options.targetDir || join(reposDir, repoName)\<close>.\<close>

definition targetPath :: "world \<Rightarrow> CloneOptions \<Rightarrow> string \<Rightarrow> string" where
  "targetPath w options rn = or_else (targetDir options) (path_join w [getReposDir w, rn])"

definition cloneRepo :: "world \<Rightarrow> CloneOptions \<Rightarrow> effect list \<times> (error + CloneResult)" where
  "cloneRepo w options =
     (case extractRepoName (url options) of
        None \<Rightarrow> ([], Inl (CouldNotExtract (url options)))
      | Some rn \<Rightarrow>
          let reposDir = getReposDir w;
              target = targetPath w options rn
          in case mkdir_recursive w reposDir of
               Inl e \<Rightarrow> ([Mkdir reposDir], Inl e)
             | Inr created \<Rightarrow>
                 if existsSync w created target then
                   ([Mkdir reposDir], Inl (AlreadyExists target))
                 else
                   let args = (if bare options = Some True then [''--bare''] else []) in
                   case git_clone w (url options) target args of
                     Some e \<Rightarrow> ([Mkdir reposDir, GitClone (url options) target args], Inl e)
                   | None \<Rightarrow>
                       (case create_git w target of
                          Some e \<Rightarrow> ([Mkdir reposDir, GitClone (url options) target args], Inl e)
                        | None \<Rightarrow>
                            (case git_branch w target of
                               Inl e \<Rightarrow>
                                 ([Mkdir reposDir, GitClone (url options) target args,
                                   GitBranch target], Inl e)
                             | Inr current \<Rightarrow>
                                 ([Mkdir reposDir, GitClone (url options) target args,
                                   GitBranch target],
                                  Inr \<lparr>clone_path = target, repoName = rn,
                                       defaultBranch = (if current \<noteq> [] then current else ''main'')\<rparr>))))"

section \<open>Creating a worktree\<close>

definition hex_lower :: "char \<Rightarrow> bool" where
  "hex_lower c = (c \<in> set ''0123456789abcdef'')"

text \<open>\<open>ref.match(/^[0-9a-f]{7,40}$/)\<close>.\<close>

definition is_sha :: "string \<Rightarrow> bool" where
  "is_sha r = (7 \<le> length r \<and> length r \<le> 40 \<and> list_all hex_lower r)"

text \<open>The arguments after \<open>worktree add\<close>.\<close>

definition add_args :: "string \<Rightarrow> string \<Rightarrow> bool \<Rightarrow> bool \<Rightarrow> string option \<Rightarrow> string list" where
  "add_args worktreePath r createBranch pullLatest sourceBranch =
     (if createBranch then
        [worktreePath, ''-b'', r] @
        (case sourceBranch of
           None \<Rightarrow> []
         | Some sb \<Rightarrow>
             if pullLatest \<and> sb \<noteq> [] then [''origin/'' @ sb]
             else if sb \<noteq> [] then [sb]
             else [])
      else [worktreePath, r])"

text \<open>
  \<open>createGit(repoPath)\<close> is the first statement and stands outside the \<open>try\<close> around the
  fetch: when it throws, the call is rejected before any git command.
\<close>

definition createWorktree ::
  "world \<Rightarrow> string \<Rightarrow> string \<Rightarrow> string \<Rightarrow> bool \<Rightarrow> bool \<Rightarrow> string option \<Rightarrow> effect list \<times> (error + unit)"
where
  "createWorktree w repoPath worktreePath r createBranch pullLatest sourceBranch =
     (case create_git w repoPath of
        Some e \<Rightarrow> ([], Inl e)
      | None \<Rightarrow>
          let fetched =
                (if pullLatest \<and> \<not> is_sha r then
                   let refToPull = or_else sourceBranch r in
                   GitFetch repoPath [''origin'', refToPull] #
                   (case git_fetch w repoPath [''origin'', refToPull] of
                      Some e \<Rightarrow> [Warn e]
                    | None \<Rightarrow> [])
                 else []);
              cmd = [''worktree'', ''add''] @ add_args worktreePath r createBranch pullLatest sourceBranch
          in (fetched @ [GitRaw repoPath cmd],
              case git_raw w repoPath cmd of Inl e \<Rightarrow> Inl e | Inr out \<Rightarrow> Inr ()))"

definition is_fetch :: "effect \<Rightarrow> bool" where
  "is_fetch e = (case e of GitFetch d a \<Rightarrow> True | _ \<Rightarrow> False)"

section \<open>The git state of a repository\<close>

text \<open>
  \<open>isGitRepo\<close>: \<open>createGit(path)\<close> and \<open>git.status()\<close> are both inside the \<open>try\<close>; either
  one throwing gives \<open>false\<close>, and when \<open>createGit\<close> throws no git command is run.
\<close>

definition isGitRepo :: "world \<Rightarrow> string \<Rightarrow> effect list \<times> bool" where
  "isGitRepo w p =
     (case create_git w p of
        Some e \<Rightarrow> ([], False)
      | None \<Rightarrow> ([GitStatus p], case git_status w p of Inl e \<Rightarrow> False | Inr c \<Rightarrow> True))"

text \<open>\<open>log.latest?.hash || ''\<close>.\<close>

definition getCurrentSha :: "world \<Rightarrow> string \<Rightarrow> effect list \<times> (error + string)" where
  "getCurrentSha w p =
     (case create_git w p of
        Some e \<Rightarrow> ([], Inl e)
      | None \<Rightarrow>
          ([GitLog p],
           case git_log w p of
             Inl e \<Rightarrow> Inl e
           | Inr latest \<Rightarrow> Inr (case latest of None \<Rightarrow> [] | Some h \<Rightarrow> h)))"

definition isClean :: "world \<Rightarrow> string \<Rightarrow> effect list \<times> (error + bool)" where
  "isClean w p =
     (case create_git w p of
        Some e \<Rightarrow> ([], Inl e)
      | None \<Rightarrow> ([GitStatus p], git_status w p))"

text \<open>
  \<open>getGitState\<close> calls the three helpers one after the other, and the repository may change
  between the calls: \<open>ws 0\<close>, \<open>ws 1\<close> and \<open>ws 2\<close> are the world as it is when
  \<open>isGitRepo\<close>, \<open>getCurrentSha\<close> and \<open>isClean\<close> are called. The \<open>try\<close> block covers the
  whole body: an error of \<open>getCurrentSha\<close> or \<open>isClean\<close> is logged and the answer is
  \<open>unknown\<close>. The function keeps nothing between calls; its only inputs are the path and
  what the outside answers during the call.
\<close>

definition getGitState :: "(nat \<Rightarrow> world) \<Rightarrow> string \<Rightarrow> effect list \<times> string" where
  "getGitState ws repoPath =
     (case isGitRepo (ws 0) repoPath of (t1, repo) \<Rightarrow>
        if \<not> repo then (t1, ''unknown'')
        else case getCurrentSha (ws 1) repoPath of
          (t2, Inl e) \<Rightarrow> (t1 @ t2 @ [Warn e], ''unknown'')
        | (t2, Inr s) \<Rightarrow>
            if s = [] then (t1 @ t2, ''unknown'')
            else case isClean (ws 2) repoPath of
              (t3, Inl e) \<Rightarrow> (t1 @ t2 @ t3 @ [Warn e], ''unknown'')
            | (t3, Inr clean) \<Rightarrow> (t1 @ t2 @ t3, if clean then s else s @ ''-dirty''))"

section \<open>A sample world\<close>

text \<open>Paths joined with slashes, as \<open>path.join\<close> does on segments that need no normalising.\<close>

fun join_segments :: "string list \<Rightarrow> string" where
  "join_segments [] = ''.''"
| "join_segments [p] = p"
| "join_segments (p # q # ps) = p @ ''/'' @ join_segments (q # ps)"

text \<open>
  A machine on which \<open>/home/u/.agor/repos/react\<close> and \<open>/tmp/x\<close> exist, \<open>simple-git\<close>
  opens every directory it is given, every git command succeeds and the repository at hand
  is clean at commit \<open>ab12cd3\<close>.
\<close>

definition missing_dir :: error where
  "missing_dir = GitError ''Cannot use simple-git on a directory that does not exist''"

definition demo_world :: world where
  "demo_world =
     \<lparr>homedir = ''/home/u'',
      path_join = join_segments,
      fs_exists = (\<lambda>p. p \<in> set [''/home/u/.agor/repos'', ''/home/u/.agor/repos/react'', ''/tmp/x'']),
      create_git = (\<lambda>d. None),
      mkdir_recursive = (\<lambda>p. Inr []),
      git_clone = (\<lambda>u t a. None),
      git_branch = (\<lambda>d. Inr ''main''),
      git_fetch = (\<lambda>d a. None),
      git_raw = (\<lambda>d a. Inr []),
      git_status = (\<lambda>d. Inr True),
      git_log = (\<lambda>d. Inr (Some ''ab12cd3''))\<rparr>"

text \<open>The same machine where the directory handed to \<open>createGit\<close> is gone.\<close>

definition gone_world :: world where
  "gone_world = demo_world\<lparr>create_git := (\<lambda>d. Some missing_dir)\<rparr>"

text \<open>The same machine while every fetch fails.\<close>

definition flaky_world :: world where
  "flaky_world = demo_world\<lparr>git_fetch := (\<lambda>d a. Some (GitError ''no such ref''))\<rparr>"

text \<open>The same machine after an edit has left the working directory dirty.\<close>

definition dirty_world :: world where
  "dirty_world = demo_world\<lparr>git_status := (\<lambda>d. Inr False)\<rparr>"

text \<open>The same machine while \<open>git status\<close> fails.\<close>

definition failing_world :: world where
  "failing_world = demo_world\<lparr>git_status := (\<lambda>d. Inl (GitError ''index.lock''))\<rparr>"

section \<open>Board channels\<close>

text \<open>
  The \<open>join-board\<close> and \<open>leave-board\<close> handlers run on the channels of the Feathers
  application object. What they use of it:
  \<^item> the application keeps its channels in an object keyed by channel name, each channel
    holding the list of its connections; \<open>app.channel(name)\<close> returns the channel of that
    name, creating it when it is missing;
  \<^item> \<open>channel.join(c)\<close> adds \<open>c\<close> unless it is there; \<open>channel.leave(c)\<close> removes it, and a
    channel left empty is dropped from the application;
  \<^item> \<open>app.channels\<close> is the array of the names of the existing channels;
  \<^item> \<open>Object.keys\<close> of an array is the list of its indices, written in decimal.
\<close>

type_synonym connection = nat

type_synonym registry = "(string \<times> connection list) list"

definition channels :: "registry \<Rightarrow> string list" where
  "channels reg = map fst reg"

definition digit_char :: "nat \<Rightarrow> char" where
  "digit_char d = ''0123456789'' ! d"

fun decimal :: "nat \<Rightarrow> string" where
  "decimal n = (if n < 10 then [digit_char n] else decimal (n div 10) @ [digit_char (n mod 10)])"

declare decimal.simps [simp del]

definition object_keys :: "'a list \<Rightarrow> string list" where
  "object_keys xs = map decimal [0..<length xs]"

text \<open>The connections of the channel of a name; a name without a channel has none.\<close>

definition connections :: "registry \<Rightarrow> string \<Rightarrow> connection list" where
  "connections reg n = concat (map snd (filter (\<lambda>(m, cs). m = n) reg))"

definition channel_join :: "string \<Rightarrow> connection \<Rightarrow> registry \<Rightarrow> registry" where
  "channel_join n c reg =
     (if n \<in> set (channels reg) then
        map (\<lambda>(m, cs). if m = n \<and> c \<notin> set cs then (m, cs @ [c]) else (m, cs)) reg
      else reg @ [(n, [c])])"

definition channel_leave :: "string \<Rightarrow> connection \<Rightarrow> registry \<Rightarrow> registry" where
  "channel_leave n c reg =
     filter (\<lambda>(m, cs). \<not> (m = n \<and> cs = []))
       (map (\<lambda>(m, cs). if m = n then (m, removeAll c cs) else (m, cs)) reg)"

text \<open>
  The loop of \<open>join-board\<close> over a list of keys: the connection leaves the channel of every
  key that starts with \<open>board-\<close>.
\<close>

definition leave_boards :: "string list \<Rightarrow> connection \<Rightarrow> registry \<Rightarrow> registry" where
  "leave_boards keys c reg =
     fold (\<lambda>channelName r.
             if startsWith channelName ''board-'' then channel_leave channelName c r else r)
       keys reg"

text \<open>
  The handlers. \<open>conn\<close> is the \<open>connection\<close> of the handler's second argument, which may
  be missing. The keys of the loop are \<open>Object.keys(app.channels)\<close>, taken before the loop
  starts.
\<close>

definition join_board :: "string \<Rightarrow> connection option \<Rightarrow> registry \<Rightarrow> registry" where
  "join_board boardId conn reg =
     (case conn of
        None \<Rightarrow> reg
      | Some c \<Rightarrow>
          channel_join (''board-'' @ boardId) c (leave_boards (object_keys (channels reg)) c reg))"

definition leave_board :: "string \<Rightarrow> connection option \<Rightarrow> registry \<Rightarrow> registry" where
  "leave_board boardId conn reg =
     (case conn of None \<Rightarrow> reg | Some c \<Rightarrow> channel_leave (''board-'' @ boardId) c reg)"

section \<open>The worktree lock\<close>

text \<open>
  Modelled from the spec: the lock of \<open>WorktreeManager\<close> (\<open>acquire\<close>, \<open>release\<close>) is not in
  the sources. The spec keeps the lock as a field of the stored worktree record, the id of
  the holding session or nothing, and makes \<open>acquire\<close> an atomic check-and-set on that
  field. An atomic call is one step on the table of worktrees; calls that race are steps
  taken in some order.
\<close>

type_synonym session_id = nat

type_synonym worktree_id = nat

record Worktree =
  worktree_repo :: nat
  worktree_name :: string
  lock_holder :: "session_id option"

datatype lock_error = NotFound | WorktreeLocked

type_synonym worktree_table = "worktree_id \<Rightarrow> Worktree option"

type_synonym lock_handle = "worktree_id \<times> session_id"

text \<open>
  Modelled from the spec: \<open>acquire(worktreeRef) -> handle | fails(AlreadyLocked, NotFound)\<close>,
  a check-and-set on the lock field. \<open>AlreadyLocked\<close> and \<open>WorktreeLocked\<close> are one error
  in the spec's taxonomy.
\<close>

definition acquire ::
  "worktree_table \<Rightarrow> worktree_id \<Rightarrow> session_id \<Rightarrow> (lock_error + lock_handle) \<times> worktree_table"
where
  "acquire t w s =
     (case t w of
        None \<Rightarrow> (Inl NotFound, t)
      | Some wt \<Rightarrow>
          (case lock_holder wt of
             Some h \<Rightarrow> (Inl WorktreeLocked, t)
           | None \<Rightarrow> (Inr (w, s), t(w \<mapsto> wt\<lparr>lock_holder := Some s\<rparr>))))"

text \<open>
  Modelled from the spec: \<open>release(handle)\<close>, idempotent; only the holder's handle clears
  the field.
\<close>

definition release :: "worktree_table \<Rightarrow> lock_handle \<Rightarrow> worktree_table" where
  "release t h =
     (case h of (w, s) \<Rightarrow>
        (case t w of
           None \<Rightarrow> t
         | Some wt \<Rightarrow> if lock_holder wt = Some s then t(w \<mapsto> wt\<lparr>lock_holder := None\<rparr>) else t))"

text \<open>
  Modelled from the spec: sessions racing for one worktree. The list gives the order in
  which their atomic calls take effect; every order is a list.
\<close>

fun acquire_race ::
  "worktree_table \<Rightarrow> worktree_id \<Rightarrow> session_id list \<Rightarrow> (lock_error + lock_handle) list \<times> worktree_table"
where
  "acquire_race t w [] = ([], t)"
| "acquire_race t w (s # ss) =
     (case acquire t w s of (r, t') \<Rightarrow>
        (case acquire_race t' w ss of (rs, t'') \<Rightarrow> (r # rs, t'')))"

definition holder :: "worktree_table \<Rightarrow> worktree_id \<Rightarrow> session_id option" where
  "holder t w = (case t w of None \<Rightarrow> None | Some wt \<Rightarrow> lock_holder wt)"

definition demo_table :: worktree_table where
  "demo_table = Map.empty(7 \<mapsto> \<lparr>worktree_repo = 1, worktree_name = ''feature'', lock_holder = None\<rparr>)"

section \<open>Task indices\<close>

text \<open>
  Modelled from the spec: the event handler of \<open>SessionOrchestrator\<close> is not in the sources.
  The spec has the agent send \<open>task-start\<close>, \<open>message\<close>, \<open>tool-use\<close>, \<open>tool-result\<close>,
  \<open>task-end\<close> and \<open>session-end\<close> events, has each applied as one mutation of the session
  while it runs, and has the orchestrator assign the indices instead of taking them from
  the event.
\<close>

datatype session_status = Idle | Running | Completed | Failed

datatype task_status = TaskPending | TaskRunning | TaskCompleted | TaskFailed

record Task =
  task_id :: nat
  index :: nat
  task_status :: task_status
  tool_use_count :: nat
  message_count :: nat

text \<open>
  Modelled from the spec: the events of the agent stream. \<open>TaskStart\<close> carries the id of the
  task and the position the agent claims for it.
\<close>

datatype agent_event =
    TaskStart nat nat
  | MessageEvent nat
  | ToolUse nat
  | ToolResult nat
  | TaskEnd nat bool
  | SessionEnd bool

record Session =
  session_status :: session_status
  tasks :: "Task list"

definition update_task :: "nat \<Rightarrow> (Task \<Rightarrow> Task) \<Rightarrow> Task list \<Rightarrow> Task list" where
  "update_task tid f ts = map (\<lambda>t. if task_id t = tid then f t else t) ts"

text \<open>
  Modelled from the spec: one event applied to a session. A task is created at its
  \<open>task-start\<close> with the next free index, whatever position the event claims, and is
  finalized at its \<open>task-end\<close>; a session that is not running takes no event.
\<close>

definition apply_event :: "agent_event \<Rightarrow> Session \<Rightarrow> Session" where
  "apply_event ev s =
     (if session_status s \<noteq> Running then s
      else case ev of
        TaskStart tid claimed \<Rightarrow>
          s\<lparr>tasks := tasks s @
               [\<lparr>task_id = tid, index = length (tasks s), task_status = TaskRunning,
                 tool_use_count = 0, message_count = 0\<rparr>]\<rparr>
      | MessageEvent tid \<Rightarrow>
          s\<lparr>tasks := update_task tid (\<lambda>t. t\<lparr>message_count := message_count t + 1\<rparr>) (tasks s)\<rparr>
      | ToolUse tid \<Rightarrow>
          s\<lparr>tasks := update_task tid
               (\<lambda>t. t\<lparr>tool_use_count := tool_use_count t + 1, message_count := message_count t + 1\<rparr>)
               (tasks s)\<rparr>
      | ToolResult tid \<Rightarrow>
          s\<lparr>tasks := update_task tid (\<lambda>t. t\<lparr>message_count := message_count t + 1\<rparr>) (tasks s)\<rparr>
      | TaskEnd tid ok \<Rightarrow>
          s\<lparr>tasks := update_task tid
               (\<lambda>t. t\<lparr>task_status := (if ok then TaskCompleted else TaskFailed)\<rparr>) (tasks s)\<rparr>
      | SessionEnd ok \<Rightarrow> s\<lparr>session_status := (if ok then Completed else Failed)\<rparr>)"

definition apply_events :: "agent_event list \<Rightarrow> Session \<Rightarrow> Session" where
  "apply_events evs s = fold apply_event evs s"

text \<open>Modelled from the spec: a session that \<open>start\<close> has just set running, without tasks.\<close>

definition started :: Session where
  "started = \<lparr>session_status = Running, tasks = []\<rparr>"

definition indices :: "Session \<Rightarrow> nat list" where
  "indices s = map index (tasks s)"

section \<open>Genealogy\<close>

text \<open>
  Modelled from the spec: \<open>GenealogyTracker\<close> is not in the sources. The spec records fork
  and spawn edges between sessions in an append-only graph and refuses an edge whose target
  is already a transitive ancestor of its source.
\<close>

datatype edge_kind = Fork | Spawn

record GenealogyEdge =
  source_session :: nat
  source_task :: nat
  target_session :: nat
  kind :: edge_kind

type_synonym genealogy = "GenealogyEdge list"

datatype genealogy_error = CycleDetected

definition parent_pairs :: "genealogy \<Rightarrow> (nat \<times> nat) list" where
  "parent_pairs g = map (\<lambda>e. (source_session e, target_session e)) g"

text \<open>
  Modelled from the spec: \<open>ancestorsOf(sessionId) -> sequence\<close>, the sessions from which
  the session is reached along one or more edges, in the order of their first edge.
\<close>

definition ancestorsOf :: "genealogy \<Rightarrow> nat \<Rightarrow> nat list" where
  "ancestorsOf g s =
     filter (\<lambda>a. (a, s) \<in> (set (parent_pairs g))\<^sup>+) (remdups (map source_session g))"

text \<open>Modelled from the spec: \<open>childrenOf(sessionId) -> sequence\<close>.\<close>

definition childrenOf :: "genealogy \<Rightarrow> nat \<Rightarrow> nat list" where
  "childrenOf g s = map target_session (filter (\<lambda>e. source_session e = s) g)"

text \<open>
  Modelled from the spec: \<open>recordEdge(sourceSessionId, sourceTaskId, targetSessionId, kind)\<close>
  with its cycle check on insert.
\<close>

definition recordEdge ::
  "genealogy \<Rightarrow> nat \<Rightarrow> nat \<Rightarrow> nat \<Rightarrow> edge_kind \<Rightarrow> (genealogy_error + unit) \<times> genealogy"
where
  "recordEdge g src task tgt k =
     (if tgt \<in> set (ancestorsOf g src) then (Inl CycleDetected, g)
      else (Inr (), g @ [\<lparr>source_session = src, source_task = task, target_session = tgt, kind = k\<rparr>]))"

definition demo_genealogy :: genealogy where
  "demo_genealogy =
     [\<lparr>source_session = 1, source_task = 10, target_session = 2, kind = Fork\<rparr>,
      \<lparr>source_session = 2, source_task = 20, target_session = 3, kind = Spawn\<rparr>]"

section \<open>Permission requests\<close>

text \<open>
  Modelled from the spec: \<open>PermissionMediator\<close> is not in the sources (only the re-export of
  its service and types is). The spec gives a request the states \<open>pending\<close>, \<open>approved\<close>,
  \<open>denied\<close> and \<open>timed_out\<close>, a creation time and a timeout, lets \<open>resolve\<close> decide a
  pending request once, denies on timeout and resolves the pending requests of a stopped
  session. Time is a counter that \<open>Tick\<close> advances; the mediator assigns a request its
  position in the table as id.
\<close>

datatype request_state = Pending | Approved | Denied | TimedOut

datatype decision = Allow | Deny

datatype mediator_error = AlreadyResolved | UnknownRequest

record PermissionRequest =
  request_session :: nat
  request_task :: nat
  tool :: string
  args :: string
  state :: request_state
  created_at :: nat
  timeout :: nat

record mediator =
  now :: nat
  requests :: "PermissionRequest list"

text \<open>
  Modelled from the spec: what reaches the mediator. \<open>Request session task tool args timeout\<close>
  is a call of \<open>request\<close>, \<open>Resolve id decision\<close> a call of \<open>resolve\<close>, \<open>StopSession\<close> the
  termination of a session.
\<close>

datatype mediator_event =
    Request nat nat string string nat
  | Resolve nat decision
  | Tick
  | StopSession nat

definition deadline :: "PermissionRequest \<Rightarrow> nat" where
  "deadline r = created_at r + timeout r"

text \<open>Modelled from the spec: a pending request whose timeout has elapsed becomes \<open>timed_out\<close>.\<close>

definition expire :: "nat \<Rightarrow> PermissionRequest \<Rightarrow> PermissionRequest" where
  "expire t r = (if state r = Pending \<and> deadline r \<le> t then r\<lparr>state := TimedOut\<rparr> else r)"

definition expire_all :: "mediator \<Rightarrow> mediator" where
  "expire_all m = m\<lparr>requests := map (expire (now m)) (requests m)\<rparr>"

definition decided :: "decision \<Rightarrow> request_state" where
  "decided d = (case d of Allow \<Rightarrow> Approved | Deny \<Rightarrow> Denied)"

text \<open>
  Modelled from the spec: \<open>resolve(requestId, decision)\<close>, valid only while the request is
  pending; later attempts fail with \<open>AlreadyResolved\<close>.
\<close>

definition resolve :: "mediator \<Rightarrow> nat \<Rightarrow> decision \<Rightarrow> (mediator_error + unit) \<times> mediator" where
  "resolve m i d =
     (if length (requests m) \<le> i then (Inl UnknownRequest, m)
      else if state (requests m ! i) \<noteq> Pending then (Inl AlreadyResolved, m)
      else (Inr (), m\<lparr>requests := (requests m)[i := (requests m ! i)\<lparr>state := decided d\<rparr>]\<rparr>))"

text \<open>Modelled from the spec: the pending requests of a stopped session are denied.\<close>

definition cancel :: "nat \<Rightarrow> PermissionRequest \<Rightarrow> PermissionRequest" where
  "cancel sid r = (if state r = Pending \<and> request_session r = sid then r\<lparr>state := Denied\<rparr> else r)"

text \<open>
  Modelled from the spec: one event at the mediator. After every event the requests whose
  timeout has elapsed are timed out.
\<close>

definition step :: "mediator_event \<Rightarrow> mediator \<Rightarrow> mediator" where
  "step ev m =
     expire_all
       (case ev of
          Request sid tid tn ta tmo \<Rightarrow>
            m\<lparr>requests := requests m @
                 [\<lparr>request_session = sid, request_task = tid, tool = tn, args = ta,
                   state = Pending, created_at = now m, timeout = tmo\<rparr>]\<rparr>
        | Resolve i d \<Rightarrow> snd (resolve m i d)
        | Tick \<Rightarrow> m\<lparr>now := now m + 1\<rparr>
        | StopSession sid \<Rightarrow> m\<lparr>requests := map (cancel sid) (requests m)\<rparr>)"

definition run :: "mediator_event list \<Rightarrow> mediator \<Rightarrow> mediator" where
  "run evs m = fold step evs m"

text \<open>
  Modelled from the spec: what the task that raised the request observes. While the request
  is pending the task is suspended and observes nothing; a timeout is a denial.
\<close>

definition outcome :: "PermissionRequest \<Rightarrow> decision option" where
  "outcome r =
     (case state r of
        Pending \<Rightarrow> None
      | Approved \<Rightarrow> Some Allow
      | Denied \<Rightarrow> Some Deny
      | TimedOut \<Rightarrow> Some Deny)"

text \<open>An event that decides request \<open>i\<close> or stops its session \<open>sid\<close>.\<close>

definition concerns :: "nat \<Rightarrow> nat \<Rightarrow> mediator_event \<Rightarrow> bool" where
  "concerns i sid ev =
     (case ev of Resolve j d \<Rightarrow> j = i | StopSession s \<Rightarrow> s = sid | _ \<Rightarrow> False)"

text \<open>
  Request \<open>i\<close> is still the request \<open>r\<close> that was raised, pending before its deadline and
  timed out from its deadline on.
\<close>

definition waiting :: "mediator \<Rightarrow> nat \<Rightarrow> PermissionRequest \<Rightarrow> bool" where
  "waiting m i r =
     (i < length (requests m) \<and>
      requests m ! i = r\<lparr>state := state (requests m ! i)\<rparr> \<and>
      state (requests m ! i) = (if deadline r \<le> now m then TimedOut else Pending))"

definition idle_mediator :: mediator where
  "idle_mediator = \<lparr>now = 0, requests = []\<rparr>"



section \<open>Properties of the worktree listing\<close>

subsection \<open>Splitting into lines\<close>

lemma split_nl_ne [simp]: "split_nl s \<noteq> []"
  by (cases s) (auto split: list.splits)

lemma split_nl_line: "newline \<notin> set l \<Longrightarrow> split_nl (l @ newline # rest) = l # split_nl rest"
  by (induction l) (auto split: list.splits)

lemma split_nl_single: "newline \<notin> set l \<Longrightarrow> split_nl l = [l]"
  by (induction l) (auto split: list.splits)

lemma split_nl_nl: "split_nl (newline # rest) = [] # split_nl rest"
  by (auto split: list.splits)

lemma split_nl_unlines:
  "\<forall>l\<in>set ls. newline \<notin> set l \<Longrightarrow> split_nl (unlines ls @ rest) = ls @ split_nl rest"
  by (induction ls) (auto simp: unlines_def split_nl_line)

lemma unlines_snoc: "unlines (ls @ [l]) = unlines ls @ l @ [newline]"
  by (simp add: unlines_def)

lemma butlast_unlines:
  "ls \<noteq> [] \<Longrightarrow> butlast (unlines ls) = unlines (butlast ls) @ last ls"
  by (cases ls rule: rev_cases) (simp_all add: unlines_snoc butlast_append)

lemma unlines_butlast: "ls \<noteq> [] \<Longrightarrow> unlines ls = butlast (unlines ls) @ [newline]"
  by (cases ls rule: rev_cases) (simp_all add: unlines_snoc butlast_append)

lemma split_nl_porcelain_text:
  "\<forall>b\<in>set bs. \<forall>l\<in>set b. newline \<notin> set l \<Longrightarrow>
   split_nl (porcelain_text bs @ rest) = block_lines bs @ split_nl rest"
proof (induction bs)
  case Nil
  then show ?case by (simp add: porcelain_text_def block_lines_def)
next
  case (Cons b bs)
  have nl: "\<forall>l\<in>set b. newline \<notin> set l"
    using Cons.prems by simp
  have "porcelain_text (b # bs) @ rest = unlines b @ (newline # (porcelain_text bs @ rest))"
    by (simp add: porcelain_text_def)
  then have "split_nl (porcelain_text (b # bs) @ rest) = b @ [] # split_nl (porcelain_text bs @ rest)"
    by (simp only: split_nl_unlines [OF nl] split_nl_nl)
  with Cons show ?case by (simp add: block_lines_def)
qed

lemma split_nl_open_block:
  assumes "\<forall>l\<in>set b. newline \<notin> set l" and "b \<noteq> []"
  shows "split_nl (butlast (unlines b)) = b"
proof -
  have nl: "\<forall>l\<in>set (butlast b). newline \<notin> set l"
    using assms(1) by (auto dest: in_set_butlastD)
  have nll: "newline \<notin> set (last b)"
    using assms by simp
  have "split_nl (butlast (unlines b)) = butlast b @ [last b]"
    using split_nl_unlines [OF nl, of "last b"] split_nl_single [OF nll]
    by (simp add: butlast_unlines assms(2))
  then show ?thesis
    using assms(2) by simp
qed

subsection \<open>The loop, record by record\<close>

lemma parse_blank: "parse_lines bn [[]] (cur, acc) = (empty_info, if complete cur then acc @ [cur] else acc)"
  by (simp add: parse_lines_def parse_line_def startsWith_def)

lemma parse_lines_append: "parse_lines bn (xs @ ys) st = parse_lines bn ys (parse_lines bn xs st)"
  by (simp add: parse_lines_def)

lemma not_complete_empty: "\<not> complete empty_info"
  by (simp add: complete_def truthy_def empty_info_def)

lemma parse_line_acc:
  "l \<noteq> [] \<Longrightarrow> parse_line bn l (cur, acc) = (fst (parse_line bn l (cur, [])), acc)"
  by (simp add: parse_line_def)

lemma parse_line_nonempty:
  "l \<noteq> [] \<Longrightarrow> \<exists>cur'. \<forall>acc. parse_line bn l (cur, acc) = (cur', acc)"
  using parse_line_acc by blast

lemma parse_lines_block:
  "[] \<notin> set b \<Longrightarrow> \<exists>cur'. \<forall>acc. parse_lines bn b (cur, acc) = (cur', acc)"
proof (induction b arbitrary: cur)
  case Nil
  then show ?case by (simp add: parse_lines_def)
next
  case (Cons l b)
  have l: "l \<noteq> []" and b: "[] \<notin> set b"
    using Cons.prems by auto
  obtain c1 where c1: "\<And>acc. parse_line bn l (cur, acc) = (c1, acc)"
    using parse_line_nonempty [OF l, of bn cur] by blast
  obtain c2 where c2: "\<And>acc. parse_lines bn b (c1, acc) = (c2, acc)"
    using Cons.IH [OF b, of c1] by blast
  have "\<forall>acc. parse_lines bn (l # b) (cur, acc) = (c2, acc)"
    using c1 c2 by (simp add: parse_lines_def)
  then show ?case by blast
qed

lemma parse_open_block:
  assumes "[] \<notin> set b"
  shows "finish (parse_lines bn b (empty_info, acc)) = acc @ entry bn b"
proof -
  obtain cur where c: "\<And>acc. parse_lines bn b (empty_info, acc) = (cur, acc)"
    using parse_lines_block [OF assms, of bn empty_info] by blast
  show ?thesis
    by (simp add: c entry_def finish_def)
qed

lemma parse_block_entry:
  assumes "[] \<notin> set b"
  shows "parse_lines bn (b @ [[]]) (empty_info, acc) = (empty_info, acc @ entry bn b)"
proof -
  obtain cur where c: "\<And>acc. parse_lines bn b (empty_info, acc) = (cur, acc)"
    using parse_lines_block [OF assms, of bn empty_info] by blast
  show ?thesis
    by (simp add: parse_lines_append c parse_blank entry_def finish_def)
qed

lemma parse_block_lines:
  "\<forall>b\<in>set bs. [] \<notin> set b \<Longrightarrow>
   parse_lines bn (block_lines bs) (empty_info, acc) = (empty_info, acc @ concat (map (entry bn) bs))"
proof (induction bs arbitrary: acc)
  case Nil
  then show ?case by (simp add: parse_lines_def block_lines_def)
next
  case (Cons b bs)
  have "parse_lines bn (block_lines (b # bs)) (empty_info, acc)
      = parse_lines bn (block_lines bs) (parse_lines bn (b @ [[]]) (empty_info, acc))"
    by (simp add: parse_lines_def block_lines_def)
  also have "\<dots> = parse_lines bn (block_lines bs) (empty_info, acc @ entry bn b)"
    using Cons.prems by (simp add: parse_block_entry)
  also have "\<dots> = (empty_info, (acc @ entry bn b) @ concat (map (entry bn) bs))"
    using Cons.prems by (intro Cons.IH) simp
  finally show ?case by simp
qed

lemma block_ok_lines:
  "\<forall>b\<in>set bs. block_ok b \<Longrightarrow>
   (\<forall>b\<in>set bs. \<forall>l\<in>set b. newline \<notin> set l) \<and> (\<forall>b\<in>set bs. [] \<notin> set b)"
  by (auto simp: block_ok_def list_all_iff)

text \<open>The output with its closing empty line.\<close>

lemma listing_of_blocks:
  assumes "\<forall>b\<in>set bs. block_ok b"
  shows "listWorktrees bn (porcelain_text bs) = concat (map (entry bn) bs)"
proof -
  have nl: "\<forall>b\<in>set bs. \<forall>l\<in>set b. newline \<notin> set l" and ne: "\<forall>b\<in>set bs. [] \<notin> set b"
    using block_ok_lines [OF assms] by auto
  have "split_nl (porcelain_text bs) = block_lines bs @ [[]]"
    using split_nl_porcelain_text [OF nl, of "[]"] by simp
  then show ?thesis
    by (simp add: listWorktrees_def parse_lines_append parse_block_lines [OF ne] parse_blank
        not_complete_empty finish_def)
qed

text \<open>The output ending with the line feed of the last record's last line.\<close>

lemma listing_no_blank:
  assumes "\<forall>x\<in>set (bs @ [b]). block_ok x"
  shows "listWorktrees bn (porcelain_text bs @ unlines b) = concat (map (entry bn) (bs @ [b]))"
proof -
  have ok: "\<forall>x\<in>set bs. block_ok x" and okb: "block_ok b"
    using assms by auto
  have nl: "\<forall>x\<in>set bs. \<forall>l\<in>set x. newline \<notin> set l" and ne: "\<forall>x\<in>set bs. [] \<notin> set x"
    using block_ok_lines [OF ok] by auto
  have nlb: "\<forall>l\<in>set b. newline \<notin> set l" and neb: "[] \<notin> set b"
    using okb by (auto simp: block_ok_def list_all_iff)
  have s: "split_nl (porcelain_text bs @ unlines b) = block_lines bs @ (b @ [[]])"
    using split_nl_porcelain_text [OF nl] split_nl_unlines [OF nlb, of "[]"] by simp
  have "parse_lines bn (block_lines bs @ (b @ [[]])) (empty_info, [])
          = parse_lines bn (b @ [[]]) (parse_lines bn (block_lines bs) (empty_info, []))"
    by (rule parse_lines_append)
  also have "\<dots> = (empty_info, concat (map (entry bn) bs) @ entry bn b)"
    by (simp only: parse_block_lines [OF ne] parse_block_entry [OF neb] append_Nil)
  finally show ?thesis
    by (simp add: listWorktrees_def s finish_def not_complete_empty)
qed

text \<open>The output ending without a line feed.\<close>

lemma listing_no_newline:
  assumes "\<forall>x\<in>set (bs @ [b]). block_ok x" and "b \<noteq> []"
  shows "listWorktrees bn (porcelain_text bs @ butlast (unlines b)) = concat (map (entry bn) (bs @ [b]))"
proof -
  have ok: "\<forall>x\<in>set bs. block_ok x" and okb: "block_ok b"
    using assms by auto
  have nl: "\<forall>x\<in>set bs. \<forall>l\<in>set x. newline \<notin> set l" and ne: "\<forall>x\<in>set bs. [] \<notin> set x"
    using block_ok_lines [OF ok] by auto
  have nlb: "\<forall>l\<in>set b. newline \<notin> set l" and neb: "[] \<notin> set b"
    using okb by (auto simp: block_ok_def list_all_iff)
  have "split_nl (porcelain_text bs @ butlast (unlines b)) = block_lines bs @ b"
    using split_nl_porcelain_text [OF nl] split_nl_open_block [OF nlb assms(2)] by simp
  then show ?thesis
    by (simp add: listWorktrees_def parse_lines_append parse_block_lines [OF ne]
        parse_open_block [OF neb])
qed

lemma porcelain_text_snoc: "porcelain_text (bs @ [b]) = porcelain_text bs @ unlines b @ [newline]"
  by (simp add: porcelain_text_def)

text \<open>All three endings at once, for an output whose last record has a line.\<close>

lemma listing_endings:
  assumes "\<forall>b\<in>set bs. block_ok b" and "\<forall>b\<in>set bs. b \<noteq> []"
  shows "listWorktrees bn (porcelain_text bs) = concat (map (entry bn) bs) \<and>
         listWorktrees bn (butlast (porcelain_text bs)) = concat (map (entry bn) bs) \<and>
         listWorktrees bn (butlast (butlast (porcelain_text bs))) = concat (map (entry bn) bs)"
proof (cases bs rule: rev_cases)
  case Nil
  then show ?thesis
    by (simp add: porcelain_text_def listWorktrees_def parse_lines_def parse_line_def
        startsWith_def finish_def not_complete_empty)
next
  case (snoc bs' b)
  have ok: "\<forall>x\<in>set (bs' @ [b]). block_ok x" and ne: "b \<noteq> []"
    using assms snoc by auto
  have b1: "butlast (porcelain_text bs) = porcelain_text bs' @ unlines b"
    by (simp add: snoc porcelain_text_snoc butlast_append)
  have "butlast (butlast (porcelain_text bs))
          = butlast (porcelain_text bs' @ butlast (unlines b) @ [newline])"
    using b1 unlines_butlast [OF ne] by simp
  then have b2: "butlast (butlast (porcelain_text bs)) = porcelain_text bs' @ butlast (unlines b)"
    by (simp add: butlast_append)
  have "listWorktrees bn (butlast (porcelain_text bs)) = concat (map (entry bn) (bs' @ [b]))"
    unfolding b1 by (rule listing_no_blank [OF ok])
  moreover have "listWorktrees bn (butlast (butlast (porcelain_text bs))) = concat (map (entry bn) (bs' @ [b]))"
    unfolding b2 by (rule listing_no_newline [OF ok ne])
  ultimately show ?thesis
    using listing_of_blocks [OF assms(1), of bn] snoc by simp
qed

subsection \<open>The records git prints\<close>

lemma record_lines_ok: "wf_record r \<Longrightarrow> block_ok (record_lines r)"
  by (auto simp: wf_record_def record_lines_def head_text_def newline_def note_line_def
      block_ok_def list_all_iff split: head_line.splits)

lemma entry_lines_ok: "wf_entry e \<Longrightarrow> block_ok (entry_lines e)"
  by (cases e) (simp_all add: wf_entry_def entry_lines_def record_lines_ok, simp add: block_ok_def newline_def)

lemma entry_lines_ne: "entry_lines e \<noteq> []"
  by (cases e) (simp_all add: entry_lines_def record_lines_def)

lemma parse_note: "note_line l \<Longrightarrow> parse_line bn l st = st"
  by (cases st) (auto simp: note_line_def parse_line_def startsWith_def prefix_def)

lemma parse_notes: "list_all note_line ls \<Longrightarrow> fold (parse_line bn) ls st = st"
  by (induction ls) (simp_all add: parse_note)

lemma parse_record:
  "wf_record r \<Longrightarrow> parse_lines bn (record_lines r) (empty_info, acc) = (expected bn r, acc)"
  by (cases "p_head r")
     (simp_all add: parse_lines_def record_lines_def parse_line_def startsWith_def substring_def
        head_text_def expected_def empty_info_def parse_notes wf_record_def)

lemma complete_expected: "wf_record r \<Longrightarrow> complete (expected bn r)"
  by (simp add: complete_def truthy_def expected_def wf_record_def)

lemma entry_checkout: "wf_record r \<Longrightarrow> entry bn (entry_lines (Checkout r)) = [expected bn r]"
  by (simp add: entry_lines_def entry_def parse_record finish_def complete_expected)

lemma entry_bare: "entry bn (entry_lines (BareRepo p)) = []"
  by (simp add: entry_lines_def entry_def parse_lines_def parse_line_def startsWith_def finish_def
      complete_def truthy_def empty_info_def)

lemma entries_expected:
  "\<forall>e\<in>set es. wf_entry e \<Longrightarrow> concat (map (entry bn) (map entry_lines es)) = expected_list bn es"
proof (induction es)
  case Nil
  then show ?case by (simp add: expected_list_def)
next
  case (Cons e es)
  have "entry bn (entry_lines e) = (case e of Checkout r \<Rightarrow> [expected bn r] | BareRepo p \<Rightarrow> [])"
    using Cons.prems
    by (cases e) (simp_all add: wf_entry_def entry_checkout entry_bare)
  then show ?case
    using Cons by (simp add: expected_list_def)
qed

text \<open>
  C3. For an output of \<open>git worktree list --porcelain\<close>, \<open>listWorktrees\<close> returns one
  tuple per record of a checked-out worktree, in order: \<open>path\<close> is the text after
  \<open>worktree \<close>, \<open>sha\<close> the text after \<open>HEAD \<close>, \<open>ref\<close> the text after \<open>branch \<close> without its
  \<open>refs/heads/\<close> prefix and then \<open>detached\<close> is false, and a record with a \<open>detached\<close> line
  has \<open>detached\<close> true. The last record is included whether the output ends with the empty
  line, with the line feed of the record's last line, or with no line feed at all.
\<close>

theorem listWorktrees_porcelain:
  assumes "\<forall>e\<in>set es. wf_entry e"
  shows "listWorktrees bn (porcelain es) = expected_list bn es \<and>
         listWorktrees bn (butlast (porcelain es)) = expected_list bn es \<and>
         listWorktrees bn (butlast (butlast (porcelain es))) = expected_list bn es"
proof -
  have ok: "\<forall>b\<in>set (map entry_lines es). block_ok b"
    using assms by (auto intro: entry_lines_ok)
  have ne: "\<forall>b\<in>set (map entry_lines es). b \<noteq> []"
    by (auto simp: entry_lines_ne)
  show ?thesis
    using listing_endings [OF ok ne, of bn] entries_expected [OF assms, of bn]
    by (simp add: porcelain_def)
qed

theorem listWorktrees_porcelain_witness:
  "list_all wf_entry demo_entries \<and>
   listWorktrees basename (butlast (butlast (porcelain demo_entries))) =
     [\<lparr>name = Some ''main'', path = Some ''/r/main'', ref = Some ''main'', sha = Some ''ab12'',
        detached = Some False\<rparr>,
      \<lparr>name = Some ''wt'', path = Some ''/r/wt'', ref = None, sha = Some ''cd34'',
        detached = Some True\<rparr>]"
proof -
  have h: "\<forall>e\<in>set demo_entries. wf_entry e"
    by (simp add: demo_entries_def wf_entry_def wf_record_def note_line_def newline_def)
  have e: "expected_list basename demo_entries =
     [\<lparr>name = Some ''main'', path = Some ''/r/main'', ref = Some ''main'', sha = Some ''ab12'',
        detached = Some False\<rparr>,
      \<lparr>name = Some ''wt'', path = Some ''/r/wt'', ref = None, sha = Some ''cd34'',
        detached = Some True\<rparr>]"
    by (simp add: demo_entries_def expected_list_def expected_def basename_def)
  show ?thesis
    using h listWorktrees_porcelain [OF h, of basename] e by (simp add: list_all_iff)
qed

subsection \<open>Records that are left out\<close>

lemma sha_kept:
  "\<not> startsWith l ''HEAD '' \<Longrightarrow> l \<noteq> [] \<Longrightarrow> sha (fst (parse_line bn l (cur, acc))) = sha cur"
  by (simp add: parse_line_def)

lemma path_kept:
  "\<not> startsWith l ''worktree '' \<Longrightarrow> l \<noteq> [] \<Longrightarrow> path (fst (parse_line bn l (cur, acc))) = path cur"
  by (simp add: parse_line_def)

lemma sha_kept_block:
  "\<not> has_line ''HEAD '' b \<Longrightarrow> [] \<notin> set b \<Longrightarrow> sha (fst (parse_lines bn b (cur, acc))) = sha cur"
proof (induction b arbitrary: cur)
  case Nil
  then show ?case by (simp add: parse_lines_def)
next
  case (Cons l b)
  have l: "l \<noteq> []" and nl: "\<not> startsWith l ''HEAD ''"
    and b: "[] \<notin> set b" and nb: "\<not> has_line ''HEAD '' b"
    using Cons.prems by (auto simp: has_line_def)
  obtain cur' where s: "\<And>acc. parse_line bn l (cur, acc) = (cur', acc)"
    using parse_line_nonempty [OF l, of bn cur] by blast
  have "sha cur' = sha cur"
    using sha_kept [OF nl l, of bn cur acc] s by simp
  moreover have "sha (fst (parse_lines bn b (cur', acc))) = sha cur'"
    using Cons.IH [OF nb b] .
  ultimately show ?case
    using s by (simp add: parse_lines_def)
qed

lemma path_kept_block:
  "\<not> has_line ''worktree '' b \<Longrightarrow> [] \<notin> set b \<Longrightarrow> path (fst (parse_lines bn b (cur, acc))) = path cur"
proof (induction b arbitrary: cur)
  case Nil
  then show ?case by (simp add: parse_lines_def)
next
  case (Cons l b)
  have l: "l \<noteq> []" and nl: "\<not> startsWith l ''worktree ''"
    and b: "[] \<notin> set b" and nb: "\<not> has_line ''worktree '' b"
    using Cons.prems by (auto simp: has_line_def)
  obtain cur' where s: "\<And>acc. parse_line bn l (cur, acc) = (cur', acc)"
    using parse_line_nonempty [OF l, of bn cur] by blast
  have "path cur' = path cur"
    using path_kept [OF nl l, of bn cur acc] s by simp
  moreover have "path (fst (parse_lines bn b (cur', acc))) = path cur'"
    using Cons.IH [OF nb b] .
  ultimately show ?case
    using s by (simp add: parse_lines_def)
qed

lemma entry_lacking:
  assumes "[] \<notin> set b" and "\<not> has_line ''worktree '' b \<or> \<not> has_line ''HEAD '' b"
  shows "entry bn b = []"
proof -
  obtain cur where c: "\<And>acc. parse_lines bn b (empty_info, acc) = (cur, acc)"
    using parse_lines_block [OF assms(1), of bn empty_info] by blast
  have "path cur = None \<or> sha cur = None"
    using assms(2) path_kept_block [OF _ assms(1), of bn empty_info "[]"]
      sha_kept_block [OF _ assms(1), of bn empty_info "[]"] c
    by (auto simp: empty_info_def)
  then have "\<not> complete cur"
    by (auto simp: complete_def truthy_def)
  then show ?thesis
    using c by (simp add: entry_def finish_def)
qed

lemma complete_fields:
  "complete w \<Longrightarrow> (\<exists>p. path w = Some p \<and> p \<noteq> []) \<and> (\<exists>s. sha w = Some s \<and> s \<noteq> [])"
  by (cases "path w"; cases "sha w") (simp_all add: complete_def truthy_def)

lemma parse_line_complete:
  "list_all complete acc \<Longrightarrow> list_all complete (snd (parse_line bn l (cur, acc)))"
  by (simp add: parse_line_def)

lemma parse_lines_complete:
  "list_all complete (snd st) \<Longrightarrow> list_all complete (snd (parse_lines bn ls st))"
proof (induction ls arbitrary: st)
  case Nil
  then show ?case by (simp add: parse_lines_def)
next
  case (Cons l ls)
  have "list_all complete (snd (parse_line bn l st))"
    using parse_line_complete [of "snd st" bn l "fst st"] Cons.prems by simp
  then show ?case
    using Cons.IH [of "parse_line bn l st"] by (simp add: parse_lines_def)
qed

lemma listing_complete: "list_all complete (listWorktrees bn out)"
proof -
  obtain cur acc where s: "parse_lines bn (split_nl out) (empty_info, []) = (cur, acc)"
    by (cases "parse_lines bn (split_nl out) (empty_info, [])")
  have "list_all complete acc"
    using parse_lines_complete [of "(empty_info, [])" bn "split_nl out"] s by simp
  then show ?thesis
    using s by (simp add: listWorktrees_def finish_def)
qed

text \<open>
  C9. Every element of the list returned by \<open>listWorktrees\<close>, for any output at all, has a
  \<open>path\<close> and a \<open>sha\<close> that are defined (and not empty). A record without a \<open>worktree \<close> line
  or without a \<open>HEAD \<close> line, such as the entry of a bare repository, leaves no trace: the
  result is the result for the output without that record, and no error is raised.
\<close>

theorem listWorktrees_entries_complete:
  "(\<forall>w\<in>set (listWorktrees bn out).
      (\<exists>p. path w = Some p \<and> p \<noteq> []) \<and> (\<exists>s. sha w = Some s \<and> s \<noteq> [])) \<and>
   ((\<forall>b\<in>set (bs1 @ [b] @ bs2). block_ok b) \<longrightarrow>
    (\<not> has_line ''worktree '' b \<or> \<not> has_line ''HEAD '' b) \<longrightarrow>
    listWorktrees bn (porcelain_text (bs1 @ [b] @ bs2)) = listWorktrees bn (porcelain_text (bs1 @ bs2)))"
proof (intro conjI impI)
  show "\<forall>w\<in>set (listWorktrees bn out).
      (\<exists>p. path w = Some p \<and> p \<noteq> []) \<and> (\<exists>s. sha w = Some s \<and> s \<noteq> [])"
    using listing_complete [of bn out] complete_fields
    by (simp add: list_all_iff)
next
  assume ok: "\<forall>b\<in>set (bs1 @ [b] @ bs2). block_ok b"
    and lack: "\<not> has_line ''worktree '' b \<or> \<not> has_line ''HEAD '' b"
  have "[] \<notin> set b"
    using ok by (auto simp: block_ok_def list_all_iff)
  then have "entry bn b = []"
    using lack by (rule entry_lacking)
  moreover have "\<forall>b\<in>set (bs1 @ bs2). block_ok b"
    using ok by auto
  ultimately show "listWorktrees bn (porcelain_text (bs1 @ [b] @ bs2)) = listWorktrees bn (porcelain_text (bs1 @ bs2))"
    using ok by (simp add: listing_of_blocks)
qed

theorem listWorktrees_entries_complete_witness:
  "listWorktrees basename (porcelain_text ([] @ [demo_bare] @ demo_rest)) \<noteq> [] \<and>
   list_all (\<lambda>w. (\<exists>p. path w = Some p \<and> p \<noteq> []) \<and> (\<exists>s. sha w = Some s \<and> s \<noteq> []))
     (listWorktrees basename (porcelain_text ([] @ [demo_bare] @ demo_rest))) \<and>
   list_all block_ok ([] @ [demo_bare] @ demo_rest) \<and>
   \<not> has_line ''HEAD '' demo_bare \<and>
   listWorktrees basename (porcelain_text ([] @ [demo_bare] @ demo_rest))
     = listWorktrees basename (porcelain_text ([] @ demo_rest))"
proof -
  have ne: "listWorktrees basename (porcelain_text ([] @ [demo_bare] @ demo_rest)) \<noteq> []"
    by code_simp
  have ok: "\<forall>b\<in>set ([] @ [demo_bare] @ demo_rest). block_ok b"
    by (simp add: demo_bare_def demo_rest_def block_ok_def newline_def)
  have lack: "\<not> has_line ''HEAD '' demo_bare"
    by (simp add: demo_bare_def has_line_def startsWith_def)
  show ?thesis
    unfolding list_all_iff
    using listWorktrees_entries_complete
            [of basename "porcelain_text ([] @ [demo_bare] @ demo_rest)" "[]" demo_bare demo_rest]
          ne ok lack
    by blast
qed

section \<open>Properties of cloning and creating\<close>

text \<open>
  C4, as amended. For every \<open>cloneRepo\<close> request whose URL yields a repository name and
  whose target directory exists when the request is made, no git command is run and nothing
  is written but the repos directory being ensured; the request fails, with the
  already-exists error once the repos directory is ensured and with the error of \<open>mkdir\<close>
  otherwise.
\<close>

theorem cloneRepo_existing_target:
  assumes "extractRepoName (url options) = Some rn"
    and "fs_exists w (targetPath w options rn)"
  shows "cloneRepo w options =
           ([Mkdir (getReposDir w)],
            case mkdir_recursive w (getReposDir w) of
              Inl e \<Rightarrow> Inl e
            | Inr created \<Rightarrow> Inl (AlreadyExists (targetPath w options rn)))"
  using assms by (simp add: cloneRepo_def Let_def existsSync_def split: sum.splits)

theorem cloneRepo_existing_target_witness:
  "extractRepoName (url \<lparr>url = ''https://github.com/facebook/react.git'', targetDir = None, bare = None\<rparr>)
     = Some ''react'' \<and>
   fs_exists demo_world ''/home/u/.agor/repos/react'' \<and>
   cloneRepo demo_world \<lparr>url = ''https://github.com/facebook/react.git'', targetDir = None, bare = None\<rparr>
     = ([Mkdir ''/home/u/.agor/repos''], Inl (AlreadyExists ''/home/u/.agor/repos/react''))"
proof -
  let ?o = "\<lparr>url = ''https://github.com/facebook/react.git'', targetDir = None, bare = None\<rparr>"
  have n: "extractRepoName (url ?o) = Some ''react''"
    by code_simp
  have t: "targetPath demo_world ?o ''react'' = ''/home/u/.agor/repos/react''"
    by (simp add: targetPath_def or_else_def getReposDir_def demo_world_def)
  have e: "fs_exists demo_world (targetPath demo_world ?o ''react'')"
    unfolding t by (simp add: demo_world_def)
  have r: "getReposDir demo_world = ''/home/u/.agor/repos''"
    by (simp add: getReposDir_def demo_world_def)
  have m: "mkdir_recursive demo_world ''/home/u/.agor/repos'' = Inr []"
    by (simp add: demo_world_def)
  show ?thesis
    using cloneRepo_existing_target [OF n e] n e by (simp add: t r m)
qed

text \<open>
  The claim as stated fails in three ways, each with \<open>/tmp/x\<close> existing as the target: a
  URL without a repository name is refused before the target is looked at, with its own
  error; a failing \<open>mkdir\<close> of the repos directory ends the request with that error;
  and \<open>createWorktree\<close>, given a repository directory that is there, does not look at the
  target and runs \<open>git worktree add\<close>.
\<close>

theorem existing_target_counterexample:
  "fs_exists demo_world ''/tmp/x'' \<and>
   cloneRepo demo_world \<lparr>url = ''react'', targetDir = Some ''/tmp/x'', bare = None\<rparr>
     = ([], Inl (CouldNotExtract ''react'')) \<and>
   cloneRepo (demo_world\<lparr>mkdir_recursive := (\<lambda>p. Inl (FsError ''EACCES''))\<rparr>)
       \<lparr>url = ''https://github.com/facebook/react'', targetDir = Some ''/tmp/x'', bare = None\<rparr>
     = ([Mkdir ''/home/u/.agor/repos''], Inl (FsError ''EACCES'')) \<and>
   createWorktree demo_world ''/home/u/.agor/repos/react'' ''/tmp/x'' ''main'' False False None
     = ([GitRaw ''/home/u/.agor/repos/react'' [''worktree'', ''add'', ''/tmp/x'', ''main'']], Inr ())"
  by code_simp

text \<open>
  C10, as amended. For every \<open>createWorktree\<close> call with \<open>pullLatest\<close> set whose repository
  directory \<open>simple-git\<close> opens: a fetch of \<open>origin\<close> and \<open>sourceBranch || ref\<close> is attempted
  exactly when the ref does not match \<open>^[0-9a-f]{7,40}$\<close>, and no other fetch is; whatever
  the fetch answers, the last command is \<open>worktree add\<close> with the arguments of the call,
  and the call ends as that command ends. When \<open>simple-git\<close> refuses the directory the call
  is rejected with that error and no git command is run.
\<close>

theorem createWorktree_fetch:
  "(case create_git w repoPath of
      Some e \<Rightarrow>
        createWorktree w repoPath worktreePath r createBranch True sourceBranch = ([], Inl e)
    | None \<Rightarrow>
        (case createWorktree w repoPath worktreePath r createBranch True sourceBranch of
           (tr, res) \<Rightarrow>
             (GitFetch repoPath [''origin'', or_else sourceBranch r] \<in> set tr) = (\<not> is_sha r) \<and>
             filter is_fetch tr =
               (if is_sha r then [] else [GitFetch repoPath [''origin'', or_else sourceBranch r]]) \<and>
             last tr = GitRaw repoPath
                         ([''worktree'', ''add''] @ add_args worktreePath r createBranch True sourceBranch) \<and>
             res = (case git_raw w repoPath
                           ([''worktree'', ''add''] @ add_args worktreePath r createBranch True sourceBranch) of
                      Inl e \<Rightarrow> Inl e
                    | Inr out \<Rightarrow> Inr ())))"
  by (simp add: createWorktree_def Let_def is_fetch_def split: option.splits)

theorem createWorktree_fetch_witness:
  "create_git flaky_world ''/home/u/.agor/repos/react'' = None \<and>
   \<not> is_sha ''feature'' \<and>
   fst (createWorktree flaky_world ''/home/u/.agor/repos/react'' ''/w/feature'' ''feature''
          True True (Some ''main''))
     = [GitFetch ''/home/u/.agor/repos/react'' [''origin'', ''main''],
        Warn (GitError ''no such ref''),
        GitRaw ''/home/u/.agor/repos/react''
          [''worktree'', ''add'', ''/w/feature'', ''-b'', ''feature'', ''origin/main'']] \<and>
   snd (createWorktree flaky_world ''/home/u/.agor/repos/react'' ''/w/feature'' ''feature''
          True True (Some ''main''))
     = Inr ()"
proof -
  have c: "create_git flaky_world ''/home/u/.agor/repos/react'' = None"
    by (simp add: flaky_world_def demo_world_def)
  have n: "\<not> is_sha ''feature''"
    by code_simp
  have t: "fst (createWorktree flaky_world ''/home/u/.agor/repos/react'' ''/w/feature'' ''feature''
                  True True (Some ''main''))
     = [GitFetch ''/home/u/.agor/repos/react'' [''origin'', ''main''],
        Warn (GitError ''no such ref''),
        GitRaw ''/home/u/.agor/repos/react''
          [''worktree'', ''add'', ''/w/feature'', ''-b'', ''feature'', ''origin/main'']]"
    by code_simp
  have g: "git_raw flaky_world ''/home/u/.agor/repos/react''
             ([''worktree'', ''add''] @ add_args ''/w/feature'' ''feature'' True True (Some ''main''))
           = Inr []"
    by (simp add: flaky_world_def demo_world_def)
  note th = createWorktree_fetch
              [where w = flaky_world and repoPath = "''/home/u/.agor/repos/react''"
                 and worktreePath = "''/w/feature''" and r = "''feature''"
                 and createBranch = True and sourceBranch = "Some ''main''"]
  from th have "snd (createWorktree flaky_world ''/home/u/.agor/repos/react'' ''/w/feature'' ''feature''
                       True True (Some ''main'')) = Inr ()"
    unfolding c g option.case by (simp split: prod.splits)
  with c n t show ?thesis
    by blast
qed

text \<open>
  The claim as stated fails where the repository directory is gone: the ref \<open>main\<close> does
  not match the pattern and \<open>pullLatest\<close> is set, yet no fetch is attempted, \<open>worktree
  add\<close> does not run, and the call is rejected.
\<close>

theorem createWorktree_fetch_counterexample:
  "\<not> is_sha ''main'' \<and>
   createWorktree gone_world ''/home/u/.agor/repos/react'' ''/w/main'' ''main'' False True None
     = ([], Inl missing_dir)"
  by code_simp

section \<open>Properties of the git state\<close>

text \<open>
  C5. The answer of a call of \<open>getGitState\<close> is a function of what the outside answers
  during that call and of nothing else: the commit when the working directory is clean, the
  commit followed by \<open>-dirty\<close> when it is not, and \<open>unknown\<close> when the path is no
  repository (\<open>simple-git\<close> refuses the directory or the status fails), when the log fails
  or names no commit, or when the second status fails. Every call asks anew: its first
  effect is \<open>git status\<close>, unless \<open>simple-git\<close> refuses the directory, where no git command
  is run at all.
\<close>

theorem getGitState_computed:
  "(case getGitState ws p of
      (tr, res) \<Rightarrow>
        take 1 tr = (case create_git (ws 0) p of None \<Rightarrow> [GitStatus p] | Some e \<Rightarrow> []) \<and>
        res =
          (case (create_git (ws 0) p, git_status (ws 0) p) of
             (None, Inr c0) \<Rightarrow>
               (case (create_git (ws 1) p, git_log (ws 1) p) of
                  (None, Inr (Some h)) \<Rightarrow>
                    if h = [] then ''unknown''
                    else (case (create_git (ws 2) p, git_status (ws 2) p) of
                            (None, Inr clean) \<Rightarrow> if clean then h else h @ ''-dirty''
                          | _ \<Rightarrow> ''unknown'')
                | _ \<Rightarrow> ''unknown'')
           | _ \<Rightarrow> ''unknown''))"
  by (auto simp: getGitState_def isGitRepo_def getCurrentSha_def isClean_def
      split: sum.splits option.splits)

text \<open>
  Two calls on one path answer what git answers at each: clean, then dirty after an edit.
  A directory that is gone, and a status that fails only at the second asking, both give
  \<open>unknown\<close>; for the directory that is gone no git command is run.
\<close>

lemma getGitState_examples:
  "getGitState (\<lambda>k. demo_world) ''/r'' = ([GitStatus ''/r'', GitLog ''/r'', GitStatus ''/r''], ''ab12cd3'')"
  "getGitState (\<lambda>k. dirty_world) ''/r''
     = ([GitStatus ''/r'', GitLog ''/r'', GitStatus ''/r''], ''ab12cd3-dirty'')"
  "getGitState (\<lambda>k. gone_world) ''/r'' = ([], ''unknown'')"
  "getGitState (\<lambda>k. if k = 2 then failing_world else demo_world) ''/r''
     = ([GitStatus ''/r'', GitLog ''/r'', GitStatus ''/r'', Warn (GitError ''index.lock'')], ''unknown'')"
  by code_simp+

section \<open>Properties of the board channels\<close>

lemma decimal_hd: "decimal n \<noteq> [] \<and> hd (decimal n) \<in> set ''0123456789''"
proof (induction n rule: decimal.induct)
  case (1 n)
  show ?case
  proof (cases "n < 10")
    case True
    then have "n \<in> {0,1,2,3,4,5,6,7,8,9}" by auto
    then show ?thesis
      by (subst decimal.simps, subst decimal.simps) (auto simp: digit_char_def)
  next
    case False
    then show ?thesis
      using 1 by (subst decimal.simps, subst (2) decimal.simps) simp
  qed
qed

lemma key_not_board: "k \<in> set (object_keys xs) \<Longrightarrow> \<not> startsWith k ''board-''"
proof -
  assume "k \<in> set (object_keys xs)"
  then obtain n where k: "k = decimal n"
    by (auto simp: object_keys_def)
  obtain d ds where "decimal n = d # ds" and "d \<in> set ''0123456789''"
    using decimal_hd [of n] by (cases "decimal n") auto
  then show ?thesis
    using k by (auto simp: startsWith_def)
qed

lemma leave_boards_idle:
  "\<forall>k\<in>set ks. \<not> startsWith k ''board-'' \<Longrightarrow> leave_boards ks c reg = reg"
  unfolding leave_boards_def
  by (induction ks arbitrary: reg) simp_all

text \<open>
  The keys the loop of \<open>join-board\<close> runs over are indices, none of which starts with
  \<open>board-\<close>: the loop leaves no channel, for any state of the channels.
\<close>

lemma join_board_only_joins:
  "join_board b (Some c) reg = channel_join (''board-'' @ b) c reg"
proof -
  have "\<forall>k\<in>set (object_keys (channels reg)). \<not> startsWith k ''board-''"
    using key_not_board by blast
  then show ?thesis
    unfolding join_board_def by (simp only: leave_boards_idle option.case)
qed

text \<open>
  Run over the channel names themselves, the same loop takes the connection out of every
  board channel: the handler's loop body is right, its list of keys is not.
\<close>

lemma connections_Cons:
  "connections ((k, cs) # reg) n = (if k = n then cs @ connections reg n else connections reg n)"
  by (simp add: connections_def)

lemma channel_leave_Cons:
  "channel_leave m c ((k, cs) # reg) =
     (if k = m then
        (if removeAll c cs = [] then channel_leave m c reg
         else (k, removeAll c cs) # channel_leave m c reg)
      else (k, cs) # channel_leave m c reg)"
  by (simp add: channel_leave_def)

lemma removeAll_empty: "removeAll c cs = [] \<Longrightarrow> x \<in> set cs \<Longrightarrow> x = c"
  using set_removeAll [of c cs] by auto

lemma connections_leave:
  "set (connections (channel_leave m c reg) n)
     = (if n = m then set (connections reg n) - {c} else set (connections reg n))"
proof (induction reg)
  case Nil
  then show ?case by (simp add: connections_def channel_leave_def)
next
  case (Cons a reg)
  obtain k cs where a: "a = (k, cs)" by (cases a)
  show ?case
    unfolding a using Cons.IH
    by (auto simp: connections_Cons channel_leave_Cons dest: removeAll_empty)
qed

lemma connections_leave_boards:
  "set (connections (leave_boards ks c reg) n)
     = (if n \<in> set ks \<and> startsWith n ''board-'' then set (connections reg n) - {c}
        else set (connections reg n))"
  unfolding leave_boards_def
  by (induction ks arbitrary: reg) (auto simp: connections_leave)

lemma connections_absent: "n \<notin> set (channels reg) \<Longrightarrow> connections reg n = []"
  by (induction reg) (auto simp: connections_def channels_def)

lemma leave_boards_by_name:
  "startsWith n ''board-'' \<Longrightarrow> c \<notin> set (connections (leave_boards (channels reg) c reg) n)"
  using connections_absent [of n reg]
  by (cases "n \<in> set (channels reg)") (simp_all add: connections_leave_boards)


section \<open>Properties of the worktree lock\<close>

lemma race_locked:
  "t w = Some wt \<Longrightarrow> lock_holder wt = Some h \<Longrightarrow>
   acquire_race t w ss = (map (\<lambda>s. Inl WorktreeLocked) ss, t)"
  by (induction ss) (simp_all add: acquire_def)

text \<open>
  C1. When sessions race to acquire one worktree that is not locked, in whatever order
  their calls take effect, the first call succeeds and every other call fails with
  \<open>WorktreeLocked\<close>; the worktree's lock is held by the winner alone.
\<close>

theorem acquire_race_one_winner:
  assumes "t w = Some wt" and "lock_holder wt = None"
  shows "acquire_race t w (s # ss) =
           (Inr (w, s) # map (\<lambda>x. Inl WorktreeLocked) ss, t(w \<mapsto> wt\<lparr>lock_holder := Some s\<rparr>)) \<and>
         holder (snd (acquire_race t w (s # ss))) w = Some s"
proof -
  have a: "acquire t w s = (Inr (w, s), t(w \<mapsto> wt\<lparr>lock_holder := Some s\<rparr>))"
    using assms by (simp add: acquire_def)
  have "acquire_race (t(w \<mapsto> wt\<lparr>lock_holder := Some s\<rparr>)) w ss
          = (map (\<lambda>x. Inl WorktreeLocked) ss, t(w \<mapsto> wt\<lparr>lock_holder := Some s\<rparr>))"
    using race_locked [of "t(w \<mapsto> wt\<lparr>lock_holder := Some s\<rparr>)" w "wt\<lparr>lock_holder := Some s\<rparr>" s ss]
    by simp
  with a show ?thesis by (simp add: holder_def)
qed

theorem acquire_race_one_winner_witness:
  "demo_table 7 = Some \<lparr>worktree_repo = 1, worktree_name = ''feature'', lock_holder = None\<rparr> \<and>
   fst (acquire_race demo_table 7 [3, 1, 2]) = [Inr (7, 3), Inl WorktreeLocked, Inl WorktreeLocked] \<and>
   holder (snd (acquire_race demo_table 7 [3, 1, 2])) 7 = Some 3"
proof -
  have h: "demo_table 7 = Some \<lparr>worktree_repo = 1, worktree_name = ''feature'', lock_holder = None\<rparr>"
    by (simp add: demo_table_def)
  have l: "lock_holder \<lparr>worktree_repo = 1, worktree_name = ''feature'', lock_holder = None\<rparr> = None"
    by simp
  note r = acquire_race_one_winner
             [of demo_table 7 "\<lparr>worktree_repo = 1, worktree_name = ''feature'', lock_holder = None\<rparr>"
                3 "[1, 2]", OF h l]
  from r have "fst (acquire_race demo_table 7 [3, 1, 2])
                 = [Inr (7, 3), Inl WorktreeLocked, Inl WorktreeLocked]"
    by (simp del: acquire_race.simps)
  with r h show ?thesis
    by blast
qed

section \<open>Properties of the task indices\<close>

lemma indices_update:
  "(\<And>t. index (f t) = index t) \<Longrightarrow> map index (update_task tid f ts) = map index ts"
  by (induction ts) (simp_all add: update_task_def)

lemma length_update_task: "length (update_task tid f ts) = length ts"
  by (simp add: update_task_def)

lemma apply_event_indices:
  "indices s = [0..<length (tasks s)] \<Longrightarrow>
   indices (apply_event ev s) = [0..<length (tasks (apply_event ev s))]"
  by (cases ev) (simp_all add: apply_event_def indices_def indices_update length_update_task)

lemma apply_events_indices:
  "indices s = [0..<length (tasks s)] \<Longrightarrow>
   indices (apply_events evs s) = [0..<length (tasks (apply_events evs s))]"
  unfolding apply_events_def
  by (induction evs arbitrary: s) (simp_all add: apply_event_indices)

text \<open>
  C2. After any sequence of agent events, in any order of arrival and whatever positions
  the events claim, the indices of the session's tasks are \<open>0, 1, 2, ...\<close> in the order of
  the tasks, without gap or repeat.
\<close>

theorem task_indices_gap_free:
  "indices (apply_events evs started) = [0..<length (tasks (apply_events evs started))]"
  by (rule apply_events_indices) (simp add: started_def indices_def)

lemma task_indices_example:
  "indices (apply_events [TaskStart 7 3, MessageEvent 7, TaskStart 5 1, TaskEnd 7 True, TaskStart 9 0]
     started) = [0, 1, 2]"
  by code_simp

section \<open>Properties of the genealogy\<close>

lemma ancestorsOf_iff: "a \<in> set (ancestorsOf g s) \<longleftrightarrow> (a, s) \<in> (set (parent_pairs g))\<^sup>+"
proof
  assume "a \<in> set (ancestorsOf g s)"
  then show "(a, s) \<in> (set (parent_pairs g))\<^sup>+"
    by (simp add: ancestorsOf_def)
next
  assume r: "(a, s) \<in> (set (parent_pairs g))\<^sup>+"
  then obtain b where "(a, b) \<in> set (parent_pairs g)"
    by (meson converse_tranclE)
  then have "a \<in> set (map source_session g)"
    by (auto simp: parent_pairs_def)
  with r show "a \<in> set (ancestorsOf g s)"
    by (simp add: ancestorsOf_def)
qed

text \<open>
  C7. After a successful \<open>recordEdge\<close> from \<open>src\<close> to \<open>tgt\<close>, the ancestors of \<open>tgt\<close> include
  \<open>src\<close>; and an edge whose target is already a transitive ancestor of its source is
  rejected with \<open>CycleDetected\<close>, the graph staying as it was.
\<close>

theorem recordEdge_roundtrip:
  "(recordEdge g src task tgt k = (Inr (), g') \<longrightarrow> src \<in> set (ancestorsOf g' tgt)) \<and>
   (tgt \<in> set (ancestorsOf g src) \<longrightarrow> recordEdge g src task tgt k = (Inl CycleDetected, g))"
proof (intro conjI impI)
  assume "recordEdge g src task tgt k = (Inr (), g')"
  then have "g' = g @ [\<lparr>source_session = src, source_task = task, target_session = tgt, kind = k\<rparr>]"
    by (auto simp: recordEdge_def split: if_splits)
  then have "(src, tgt) \<in> set (parent_pairs g')"
    by (simp add: parent_pairs_def)
  then show "src \<in> set (ancestorsOf g' tgt)"
    unfolding ancestorsOf_iff by (rule r_into_trancl)
next
  assume "tgt \<in> set (ancestorsOf g src)"
  then show "recordEdge g src task tgt k = (Inl CycleDetected, g)"
    by (simp add: recordEdge_def)
qed

theorem recordEdge_roundtrip_witness:
  "recordEdge demo_genealogy 3 30 4 Fork =
     (Inr (), demo_genealogy @ [\<lparr>source_session = 3, source_task = 30, target_session = 4, kind = Fork\<rparr>]) \<and>
   3 \<in> set (ancestorsOf
       (demo_genealogy @ [\<lparr>source_session = 3, source_task = 30, target_session = 4, kind = Fork\<rparr>]) 4) \<and>
   1 \<in> set (ancestorsOf demo_genealogy 3) \<and>
   recordEdge demo_genealogy 3 30 1 Fork = (Inl CycleDetected, demo_genealogy)"
proof -
  let ?g' = "demo_genealogy @ [\<lparr>source_session = 3, source_task = 30, target_session = 4, kind = Fork\<rparr>]"
  have ok: "recordEdge demo_genealogy 3 30 4 Fork = (Inr (), ?g')"
    by code_simp
  have anc: "1 \<in> set (ancestorsOf demo_genealogy 3)"
    by code_simp
  show ?thesis
    using recordEdge_roundtrip [of demo_genealogy 3 30 4 Fork ?g']
      recordEdge_roundtrip [of demo_genealogy 3 30 1 Fork ?g'] ok anc
    by blast
qed

section \<open>Properties of the permission requests\<close>

lemma expire_fields [simp]:
  "created_at (expire t r) = created_at r" "timeout (expire t r) = timeout r"
  "request_session (expire t r) = request_session r" "deadline (expire t r) = deadline r"
  by (simp_all add: expire_def deadline_def)

lemma waiting_step:
  assumes "waiting m i r" and "\<not> concerns i (request_session r) ev"
  shows "waiting (step ev m) i r"
proof (cases ev)
  case (Request sid tid tn ta tmo)
  with assms show ?thesis
    by (auto simp: waiting_def step_def expire_all_def nth_append expire_def deadline_def)
next
  case (Resolve j d)
  with assms have "j \<noteq> i" by (simp add: concerns_def)
  with assms Resolve show ?thesis
    by (auto simp: waiting_def step_def expire_all_def resolve_def expire_def deadline_def)
next
  case Tick
  with assms show ?thesis
    by (auto simp: waiting_def step_def expire_all_def expire_def deadline_def)
next
  case (StopSession sid)
  with assms have "sid \<noteq> request_session r" by (simp add: concerns_def)
  with assms StopSession show ?thesis
    by (auto simp: waiting_def step_def expire_all_def expire_def deadline_def cancel_def)
qed

lemma waiting_run:
  "waiting m i r \<Longrightarrow> \<forall>ev\<in>set evs. \<not> concerns i (request_session r) ev \<Longrightarrow> waiting (run evs m) i r"
  unfolding run_def
  by (induction evs arbitrary: m) (simp_all add: waiting_step)

lemma waiting_request:
  "waiting (step (Request sid tid tn ta tmo) m) (length (requests m))
     \<lparr>request_session = sid, request_task = tid, tool = tn, args = ta,
      state = Pending, created_at = now m, timeout = tmo\<rparr>"
  by (simp add: waiting_def step_def expire_all_def expire_def deadline_def nth_append)

text \<open>
  C8. A request that is raised and that receives no decision (and whose session is not
  stopped) is pending exactly until the clock reaches its creation time plus its timeout;
  from then on it is \<open>timed_out\<close> and the task that raised it observes a denial. No such
  request stays pending past its timeout.
\<close>

theorem permission_request_times_out:
  assumes "\<forall>ev\<in>set evs. \<not> concerns (length (requests m)) sid ev"
  shows "let m' = run (Request sid tid tn ta tmo # evs) m;
             r = requests m' ! length (requests m)
         in length (requests m) < length (requests m') \<and>
            (if now m + tmo \<le> now m' then state r = TimedOut \<and> outcome r = Some Deny
             else state r = Pending \<and> outcome r = None)"
proof -
  let ?r0 = "\<lparr>request_session = sid, request_task = tid, tool = tn, args = ta,
              state = Pending, created_at = now m, timeout = tmo\<rparr>"
  let ?m1 = "step (Request sid tid tn ta tmo) m"
  have w1: "waiting ?m1 (length (requests m)) ?r0"
    by (rule waiting_request)
  have "\<forall>ev\<in>set evs. \<not> concerns (length (requests m)) (request_session ?r0) ev"
    using assms by simp
  with w1 have "waiting (run evs ?m1) (length (requests m)) ?r0"
    by (rule waiting_run)
  moreover have "run (Request sid tid tn ta tmo # evs) m = run evs ?m1"
    by (simp add: run_def)
  ultimately have w: "waiting (run (Request sid tid tn ta tmo # evs) m) (length (requests m)) ?r0"
    by simp
  have d: "deadline ?r0 = now m + tmo"
    by (simp add: deadline_def)
  show ?thesis
    using w unfolding waiting_def d Let_def
    by (auto simp: outcome_def)
qed

theorem permission_request_times_out_witness:
  "list_all (\<lambda>ev. \<not> concerns (length (requests idle_mediator)) 1 ev) [Tick, Resolve 9 Allow, Tick] \<and>
   now (run (Request 1 4 ''Bash'' ''rm -rf build'' 2 # [Tick, Resolve 9 Allow, Tick]) idle_mediator) = 2 \<and>
   state (requests (run (Request 1 4 ''Bash'' ''rm -rf build'' 2 # [Tick, Resolve 9 Allow, Tick]) idle_mediator) ! 0)
     = TimedOut \<and>
   outcome (requests (run (Request 1 4 ''Bash'' ''rm -rf build'' 2 # [Tick, Resolve 9 Allow, Tick]) idle_mediator) ! 0)
     = Some Deny"
proof -
  have h: "\<forall>ev\<in>set [Tick, Resolve 9 Allow, Tick]. \<not> concerns (length (requests idle_mediator)) 1 ev"
    by (simp add: concerns_def idle_mediator_def)
  have n: "now (run (Request 1 4 ''Bash'' ''rm -rf build'' 2 # [Tick, Resolve 9 Allow, Tick]) idle_mediator) = 2"
    by code_simp
  have z: "length (requests idle_mediator) = 0" "now idle_mediator = 0"
    by (simp_all add: idle_mediator_def)
  show ?thesis
    using permission_request_times_out [OF h, of 4 "''Bash''" "''rm -rf build''" 2] h n
    unfolding Let_def z list_all_iff
    by simp
qed

end
